theory Spec2Isabelle
  imports Main
begin

section \<open>EnumString: compile-time generation of enum strings\<close>

text \<open>
  A shallow embedding of \<^verbatim>\<open>include/EnumString/enum_string.h\<close> and of the demo
  \<^verbatim>\<open>src/EnumString/main.cpp\<close>. Templates become functions of their template
  arguments, constant evaluation becomes evaluation, and an ill-formed program (a
  constraint that is not satisfied, an array of no elements, more initialisers than
  elements, an exception or an out-of-bounds read during constant evaluation) becomes an
  \<open>error\<close> value.
\<close>

subsection \<open>Objects, pointers, \<^verbatim>\<open>std::size_t\<close>\<close>

text \<open>
  All storage the library touches is immutable (string literals and \<^verbatim>\<open>constexpr\<close>
  variables). A \<^verbatim>\<open>char const*\<close> is therefore modelled by the identity of the object it
  points into together with the characters from the pointed-to position to the end of that
  object's array. The objects are: the storage of a string literal (which includes the
  text returned by \<^verbatim>\<open>function_name()\<close>), one variable \<^verbatim>\<open>enumName<EnumT, E>\<close> for every
  enumeration type (named by its qualified name) and value, and temporaries; \<open>null\<close> stands
  for the null pointer, which points into no object.
\<close>

datatype object =
  literal string
  | enumName_var string nat
  | temporary
  | null

record char_ptr =
  ptr_obj :: object
  ptr_chars :: string

record string_view =
  sv_data :: char_ptr
  sv_size :: nat

datatype error =
  constraint_not_satisfied
  | out_of_range
  | out_of_bounds
  | zero_size_array
  | too_many_initializers
  | unnamed_value

text \<open>\<^verbatim>\<open>std::size_t\<close> is 64 bits wide; sums and differences wrap around.\<close>

definition SIZE_MAX :: nat where
  "SIZE_MAX = 2 ^ 64 - 1"

definition npos :: nat where
  "npos = SIZE_MAX"

definition size_t_add :: "nat \<Rightarrow> nat \<Rightarrow> nat" where
  "size_t_add a b = (a + b) mod 2 ^ 64"

definition size_t_sub :: "nat \<Rightarrow> nat \<Rightarrow> nat" where
  "size_t_sub a b = (a + 2 ^ 64 - b) mod 2 ^ 64"

definition NUL :: char where
  "NUL = CHR 0x00"

text \<open>A string literal: its array holds the text and the terminating NUL.\<close>

definition c_str :: "string \<Rightarrow> char_ptr" where
  "c_str s = \<lparr>ptr_obj = literal s, ptr_chars = s @ [NUL]\<rparr>"

text \<open>Pointer arithmetic \<^verbatim>\<open>p + k\<close> inside the array.\<close>

definition ptr_add :: "char_ptr \<Rightarrow> nat \<Rightarrow> char_ptr" where
  "ptr_add p k = p\<lparr>ptr_chars := drop k (ptr_chars p)\<rparr>"

subsection \<open>\<^verbatim>\<open>std::string_view\<close>\<close>

text \<open>The characters a view denotes.\<close>

definition sv_chars :: "string_view \<Rightarrow> string" where
  "sv_chars v = take (sv_size v) (ptr_chars (sv_data v))"

text \<open>
  \<^verbatim>\<open>string_view(char const*)\<close> measures the string up to its terminator; without a
  terminator inside the array the constant evaluation reads out of bounds.
\<close>

definition string_view_of :: "char_ptr \<Rightarrow> error + string_view" where
  "string_view_of p =
     (if NUL \<in> set (ptr_chars p)
      then Inr \<lparr>sv_data = p, sv_size = length (takeWhile (\<lambda>c. c \<noteq> NUL) (ptr_chars p))\<rparr>
      else Inl out_of_bounds)"

text \<open>The literal \<^verbatim>\<open>"..."sv\<close>.\<close>

definition sv_literal :: "string \<Rightarrow> string_view" where
  "sv_literal s = \<lparr>sv_data = c_str s, sv_size = length s\<rparr>"

text \<open>\<^verbatim>\<open>operator==\<close> on views compares the characters, not the pointers.\<close>

definition sv_eq :: "string_view \<Rightarrow> string_view \<Rightarrow> bool" where
  "sv_eq a b = (sv_size a = sv_size b \<and> sv_chars a = sv_chars b)"

fun first_index :: "'a \<Rightarrow> 'a list \<Rightarrow> nat option" where
  "first_index c [] = None"
| "first_index c (x # xs) =
     (if x = c then Some 0
      else (case first_index c xs of None \<Rightarrow> None | Some k \<Rightarrow> Some (Suc k)))"

fun last_index :: "'a \<Rightarrow> 'a list \<Rightarrow> nat option" where
  "last_index c [] = None"
| "last_index c (x # xs) =
     (case last_index c xs of
        Some k \<Rightarrow> Some (Suc k)
      | None \<Rightarrow> (if x = c then Some 0 else None))"

text \<open>\<^verbatim>\<open>find_last_of(c)\<close>: the highest position holding \<open>c\<close>, else \<open>npos\<close>.\<close>

definition find_last_of :: "string_view \<Rightarrow> char \<Rightarrow> nat" where
  "find_last_of v c = (case last_index c (sv_chars v) of None \<Rightarrow> npos | Some p \<Rightarrow> p)"

text \<open>\<^verbatim>\<open>find_first_of(c, pos)\<close>: the lowest position at or after \<open>pos\<close> holding \<open>c\<close>, else \<open>npos\<close>.\<close>

definition find_first_of :: "string_view \<Rightarrow> char \<Rightarrow> nat \<Rightarrow> nat" where
  "find_first_of v c pos =
     (case first_index c (drop pos (sv_chars v)) of None \<Rightarrow> npos | Some k \<Rightarrow> pos + k)"

text \<open>\<^verbatim>\<open>substr(pos, n)\<close> throws \<^verbatim>\<open>std::out_of_range\<close> when \<open>pos > size()\<close>.\<close>

definition substr :: "string_view \<Rightarrow> nat \<Rightarrow> nat \<Rightarrow> error + string_view" where
  "substr v pos n =
     (if pos > sv_size v then Inl out_of_range
      else Inr \<lparr>sv_data = ptr_add (sv_data v) pos, sv_size = min n (sv_size v - pos)\<rparr>)"

subsection \<open>\<^verbatim>\<open>FixedString\<close>\<close>

record FixedString =
  fs_data :: string

text \<open>
  The template argument \<open>Size\<close> is the length of \<open>fs_data\<close>. The member is
  \<^verbatim>\<open>char data_[Size]\<close>: for \<open>Size = 0\<close> that is an array of no elements, which ISO C++ does
  not allow and which the build of the repository rejects (warnings are errors, extensions
  are off), so \<^verbatim>\<open>FixedString<0>\<close> is ill-formed. The constructor is
  \<^verbatim>\<open>std::copy_n(str, Size, data_)\<close>; reading past the end of the source array is an
  out-of-bounds read.
\<close>

definition FixedString :: "nat \<Rightarrow> char_ptr \<Rightarrow> error + FixedString" where
  "FixedString Size str =
     (if Size = 0 then Inl zero_size_array
      else if Size \<le> length (ptr_chars str) then Inr \<lparr>fs_data = take Size (ptr_chars str)\<rparr>
      else Inl out_of_bounds)"

text \<open>
  \<^verbatim>\<open>operator std::string_view()\<close> returns \<^verbatim>\<open>{ data_, Size }\<close>: a view into the
  \<open>FixedString\<close> object itself, given here by the object that holds it.
\<close>

definition to_string_view :: "object \<Rightarrow> FixedString \<Rightarrow> string_view" where
  "to_string_view ob fs =
     \<lparr>sv_data = \<lparr>ptr_obj = ob, ptr_chars = fs_data fs\<rparr>, sv_size = length (fs_data fs)\<rparr>"

text \<open>A value-initialised \<^verbatim>\<open>std::string_view\<close>: the null pointer and the size 0.\<close>

definition default_string_view :: string_view where
  "default_string_view = \<lparr>sv_data = \<lparr>ptr_obj = null, ptr_chars = []\<rparr>, sv_size = 0\<rparr>"

subsection \<open>Enumeration types and the \<^verbatim>\<open>SizedEnum\<close> concept\<close>

text \<open>
  A C++ identifier (basic source characters): a letter or underscore followed by letters,
  digits and underscores.
\<close>

definition nondigit :: string where
  "nondigit = ''abcdefghijklmnopqrstuvwxyzABCDEFGHIJKLMNOPQRSTUVWXYZ_''"

definition digit :: string where
  "digit = ''0123456789''"

definition is_identifier :: "string \<Rightarrow> bool" where
  "is_identifier s =
     (case s of
        [] \<Rightarrow> False
      | c # cs \<Rightarrow> c \<in> set nondigit \<and> list_all (\<lambda>d. d \<in> set nondigit \<or> d \<in> set digit) cs)"

text \<open>
  The text of an enumeration declaration: scoped (\<^verbatim>\<open>enum class\<close>) or not, the qualified
  name of the type as the compiler prints it, and the enumerators in declaration order, all
  with their default values 0, 1, 2, ... (enumerators with initialisers are outside the
  library's documented input and outside this model).
\<close>

datatype enum_kind = scoped_enum | unscoped_enum

record enum_syntax =
  syn_kind :: enum_kind
  syn_qual_name :: string
  syn_enumerators :: "string list"

text \<open>
  The compiler accepts a declaration only if its enumerators are identifiers. Names are C
  strings, and the limits of a compiler keep them far below \<open>2 ^ 32\<close> characters, so that the
  length of every signature is a value of \<^verbatim>\<open>std::size_t\<close>.
\<close>

definition well_formed :: "enum_syntax \<Rightarrow> bool" where
  "well_formed d =
     (NUL \<notin> set (syn_qual_name d) \<and> length (syn_qual_name d) < 2 ^ 32 \<and>
      list_all (\<lambda>m. is_identifier m \<and> length m < 2 ^ 32) (syn_enumerators d))"

text \<open>An enumeration type is a declaration that the compiler has accepted.\<close>

typedef enum_decl = "{d. well_formed d}"
  by (rule exI [of _ "\<lparr>syn_kind = scoped_enum, syn_qual_name = [], syn_enumerators = []\<rparr>"])
    (simp add: well_formed_def)

definition kind :: "enum_decl \<Rightarrow> enum_kind" where
  "kind EnumT = syn_kind (Rep_enum_decl EnumT)"

definition qual_name :: "enum_decl \<Rightarrow> string" where
  "qual_name EnumT = syn_qual_name (Rep_enum_decl EnumT)"

definition enumerators :: "enum_decl \<Rightarrow> string list" where
  "enumerators EnumT = syn_enumerators (Rep_enum_decl EnumT)"

text \<open>The type that a well-formed declaration introduces.\<close>

definition enum_declaration :: "enum_kind \<Rightarrow> string \<Rightarrow> string list \<Rightarrow> enum_decl" where
  "enum_declaration k q ms =
     Abs_enum_decl \<lparr>syn_kind = k, syn_qual_name = q, syn_enumerators = ms\<rparr>"

definition is_scoped_enum_v :: "enum_decl \<Rightarrow> bool" where
  "is_scoped_enum_v EnumT = (kind EnumT = scoped_enum)"

definition SizedEnum :: "enum_decl \<Rightarrow> bool" where
  "SizedEnum EnumT = (is_scoped_enum_v EnumT \<and> ''enumSize'' \<in> set (enumerators EnumT))"

text \<open>\<^verbatim>\<open>std::to_underlying(EnumT::enumSize)\<close>: the value of the enumerator of that name.\<close>

definition to_underlying_enumSize :: "enum_decl \<Rightarrow> nat option" where
  "to_underlying_enumSize EnumT = first_index ''enumSize'' (enumerators EnumT)"

subsection \<open>The function signature \<^verbatim>\<open>n<E>()\<close>\<close>

text \<open>
  The text that \<^verbatim>\<open>std::source_location::current().function_name()\<close> yields inside
  \<^verbatim>\<open>n<E>\<close> is the compiler's. The header documents it for the supported compiler:
  \<^verbatim>\<open>auto __cdecl EnumString::n<Fruit::apple>(void) noexcept\<close>, the value \<open>E\<close> being
  printed as the qualified name of the enumerator that has this value. How a value that no
  enumerator names is printed is not documented; the model stops there.
\<close>

definition spelling :: "enum_decl \<Rightarrow> nat \<Rightarrow> error + string" where
  "spelling EnumT E =
     (if E < length (enumerators EnumT)
      then Inr (qual_name EnumT @ ''::'' @ enumerators EnumT ! E)
      else Inl unnamed_value)"

definition n :: "string \<Rightarrow> char_ptr" where
  "n E = c_str (''auto __cdecl EnumString::n<'' @ E @ ''>(void) noexcept'')"

subsection \<open>\<^verbatim>\<open>toEnumName\<close>, \<^verbatim>\<open>enumName\<close>, \<^verbatim>\<open>generateEnumNames\<close>, \<^verbatim>\<open>makeEnumString\<close>\<close>

text \<open>The two positions \<^verbatim>\<open>start\<close> and \<^verbatim>\<open>end\<close> of \<^verbatim>\<open>toEnumName\<close>.\<close>

definition toEnumName_start :: "string_view \<Rightarrow> nat" where
  "toEnumName_start funcName = size_t_add (find_last_of funcName CHR '':'') 1"

definition toEnumName_end :: "string_view \<Rightarrow> nat" where
  "toEnumName_end funcName = find_first_of funcName CHR ''>'' (toEnumName_start funcName)"

text \<open>\<^verbatim>\<open>toEnumName\<close>, as a function of the pointer that \<^verbatim>\<open>n<E>()\<close> returns.\<close>

definition toEnumName :: "char_ptr \<Rightarrow> error + FixedString" where
  "toEnumName p =
     (case string_view_of p of
        Inl e \<Rightarrow> Inl e
      | Inr funcName \<Rightarrow>
          (let start = toEnumName_start funcName;
               end' = toEnumName_end funcName
           in case substr funcName start (size_t_sub end' start) of
                Inl e \<Rightarrow> Inl e
              | Inr nameView \<Rightarrow> FixedString (sv_size nameView) (sv_data nameView)))"

text \<open>
  The value of the variable \<^verbatim>\<open>enumName<EnumT, E>\<close>. The variable template and
  \<^verbatim>\<open>toEnumName\<close> are both constrained by \<^verbatim>\<open>SizedEnum\<close>.
\<close>

definition enumName :: "enum_decl \<Rightarrow> nat \<Rightarrow> error + FixedString" where
  "enumName EnumT E =
     (if SizedEnum EnumT
      then (case spelling EnumT E of Inl e \<Rightarrow> Inl e | Inr s \<Rightarrow> toEnumName (n s))
      else Inl constraint_not_satisfied)"

text \<open>
  The pack expansion \<^verbatim>\<open>enumName<EnumT, static_cast<EnumT>(I)>...\<close> of
  \<^verbatim>\<open>generateEnumNames\<close>: the initialiser for \<open>I\<close> is the variable
  \<^verbatim>\<open>enumName<EnumT, static_cast<EnumT>(I)>\<close> converted to a view.
\<close>

fun expand_pack :: "enum_decl \<Rightarrow> nat list \<Rightarrow> error + string_view list" where
  "expand_pack EnumT [] = Inr []"
| "expand_pack EnumT (I # Is) =
     (case enumName EnumT I of
        Inl e \<Rightarrow> Inl e
      | Inr fs \<Rightarrow>
          (case expand_pack EnumT Is of
             Inl e \<Rightarrow> Inl e
           | Inr vs \<Rightarrow> Inr (to_string_view (enumName_var (qual_name EnumT) I) fs # vs)))"

text \<open>
  \<^verbatim>\<open>generateEnumNames\<close> returns an \<^verbatim>\<open>EnumStringArray<EnumT>\<close>, an array of
  \<^verbatim>\<open>std::to_underlying(EnumT::enumSize)\<close> views, initialised from the pack: more initialisers
  than elements are ill-formed, and elements without an initialiser are value-initialised.
\<close>

definition generateEnumNames :: "enum_decl \<Rightarrow> nat list \<Rightarrow> error + string_view list" where
  "generateEnumNames EnumT Is =
     (if SizedEnum EnumT
      then (case to_underlying_enumSize EnumT of
              None \<Rightarrow> Inl constraint_not_satisfied
            | Some N \<Rightarrow>
                (if N < length Is then Inl too_many_initializers
                 else (case expand_pack EnumT Is of
                         Inl e \<Rightarrow> Inl e
                       | Inr vs \<Rightarrow> Inr (vs @ replicate (N - length Is) default_string_view))))
      else Inl constraint_not_satisfied)"

text \<open>The value of the variable \<^verbatim>\<open>enumNames<EnumT>\<close>.\<close>

definition enumNames :: "enum_decl \<Rightarrow> error + string_view list" where
  "enumNames EnumT =
     (if SizedEnum EnumT
      then (case to_underlying_enumSize EnumT of
              None \<Rightarrow> Inl constraint_not_satisfied
            | Some N \<Rightarrow> generateEnumNames EnumT [0..<N])
      else Inl constraint_not_satisfied)"

definition makeEnumString :: "enum_decl \<Rightarrow> error + string_view list" where
  "makeEnumString EnumT =
     (if SizedEnum EnumT then enumNames EnumT else Inl constraint_not_satisfied)"

subsection \<open>The demo program\<close>

definition Fruit :: enum_decl where
  "Fruit = enum_declaration scoped_enum ''Fruit''
     [''apple'', ''banana'', ''cherry'', ''grape'', ''grapefruit'', ''kiwi'',
      ''lemon'', ''lime'', ''melon'', ''orange'', ''pear'', ''pineapple'', ''plum'',
      ''raspberry'', ''strawberry'', ''enumSize'']"

text \<open>The example of the header: \<^verbatim>\<open>enum class Fruit { apple, banana, pear, enumSize };\<close>\<close>

definition example_Fruit :: enum_decl where
  "example_Fruit =
     enum_declaration scoped_enum ''Fruit'' [''apple'', ''banana'', ''pear'', ''enumSize'']"

definition newline :: char where
  "newline = CHR 0x0A"

text \<open>\<^verbatim>\<open>std::println\<close> writes its formatted text and a newline.\<close>

definition println :: "string \<Rightarrow> string" where
  "println s = s @ [newline]"

definition digit_char :: "nat \<Rightarrow> char" where
  "digit_char d = ''0123456789'' ! (d mod 10)"

fun decimal :: "nat \<Rightarrow> string" where
  "decimal k = (if k < 10 then [digit_char k] else decimal (k div 10) @ [digit_char (k mod 10)])"

text \<open>The replacement field \<^verbatim>\<open>{:2}\<close> for an integer: minimum width 2, right-aligned.\<close>

definition format_width2 :: "nat \<Rightarrow> string" where
  "format_width2 k = replicate (2 - length (decimal k)) CHR '' '' @ decimal k"

text \<open>The format string \<^verbatim>\<open>"{:2}: {}"\<close>.\<close>

definition format_entry :: "nat \<Rightarrow> string_view \<Rightarrow> string" where
  "format_entry index name = format_width2 index @ '': '' @ sv_chars name"

text \<open>\<^verbatim>\<open>main\<close>: the text written to standard output and the exit status.\<close>

definition main :: "error + (string \<times> int)" where
  "main =
     (case makeEnumString Fruit of
        Inl e \<Rightarrow> Inl e
      | Inr fruitNames \<Rightarrow>
          Inr (println (''List of fruits:'' @ [newline])
               @ concat (map (\<lambda>(index, name). println (format_entry index name))
                             (enumerate 0 fruitNames)),
               0))"

subsection \<open>Notions of the specification\<close>

text \<open>
  The specification's eligibility: a scoped enumeration whose final member is the count
  sentinel.
\<close>

definition spec_isEligible :: "enum_decl \<Rightarrow> bool" where
  "spec_isEligible EnumT =
     (kind EnumT = scoped_enum \<and>
      (case rev (enumerators EnumT) of [] \<Rightarrow> False | m # ms \<Rightarrow> m = ''enumSize''))"

text \<open>
  The specification's positions for the extraction from a signature \<open>s\<close>. The scope-separator
  token is \<^verbatim>\<open>::\<close> and the generic-closing token is \<^verbatim>\<open>>\<close>. The position \<open>start\<close>
  immediately follows a scope-separator token, \<open>end'\<close> is the position of the first
  generic-closing token from \<open>start\<close> on, and that scope-separator token is the last one of
  the text that has a generic-closing token after it.
\<close>

fun scope_then_closing :: "string \<Rightarrow> bool" where
  "scope_then_closing [] = False"
| "scope_then_closing (x # xs) =
     ((x = CHR '':'' \<and> take 1 xs = '':'' \<and> CHR ''>'' \<in> set (drop 1 xs)) \<or> scope_then_closing xs)"

definition spec_positions :: "string \<Rightarrow> nat \<Rightarrow> nat \<Rightarrow> bool" where
  "spec_positions s start end' =
     (2 \<le> start \<and> start \<le> end' \<and> end' < length s \<and>
      s ! (start - 2) = CHR '':'' \<and> s ! (start - 1) = CHR '':'' \<and>
      s ! end' = CHR ''>'' \<and> CHR ''>'' \<notin> set (take (end' - start) (drop start s)) \<and>
      \<not> scope_then_closing (drop start s))"

text \<open>
  The specification's contract of the signature probe: the text contains the member's
  identifier with a scope-separator token immediately before it and a generic-closing token
  immediately after it.
\<close>

definition signature_with :: "string \<Rightarrow> string \<Rightarrow> string \<Rightarrow> string" where
  "signature_with pre ident post = pre @ ''::'' @ ident @ ''>'' @ post"

text \<open>
  The specification's text of the demo: the header line followed by exactly the fifteen
  entry lines.
\<close>

definition spec_demo_output :: string where
  "spec_demo_output =
     concat (map println
       [''List of fruits:'', '' 0: apple'', '' 1: banana'', '' 2: cherry'', '' 3: grape'',
        '' 4: grapefruit'', '' 5: kiwi'', '' 6: lemon'', '' 7: lime'', '' 8: melon'',
        '' 9: orange'', ''10: pear'', ''11: pineapple'', ''12: plum'', ''13: raspberry'',
        ''14: strawberry''])"

section \<open>Properties\<close>

subsection \<open>Searching, positions and views\<close>

lemma first_index_None: "first_index c xs = None \<longleftrightarrow> c \<notin> set xs"
  by (induction xs) (auto split: option.splits)

lemma first_index_Some:
  "first_index c xs = Some k \<Longrightarrow> k < length xs \<and> xs ! k = c \<and> c \<notin> set (take k xs)"
  by (induction xs arbitrary: k) (auto split: option.splits if_splits)

lemma first_index_append:
  "c \<notin> set xs \<Longrightarrow> first_index c (xs @ c # ys) = Some (length xs)"
  by (induction xs) auto

lemma first_index_nth:
  assumes "k < length xs" and "xs ! k = c" and "c \<notin> set (take k xs)"
  shows "first_index c xs = Some k"
proof -
  have "xs = take k xs @ c # drop (Suc k) xs"
    using assms(1,2) by (metis id_take_nth_drop)
  then have "first_index c xs = first_index c (take k xs @ c # drop (Suc k) xs)"
    by simp
  also have "\<dots> = Some (length (take k xs))"
    using assms(3) by (rule first_index_append)
  finally show ?thesis using assms(1) by simp
qed

lemma last_index_None: "last_index c xs = None \<longleftrightarrow> c \<notin> set xs"
  by (induction xs) (auto split: option.splits)

lemma last_index_Some:
  "last_index c xs = Some k \<Longrightarrow> k < length xs \<and> xs ! k = c \<and> c \<notin> set (drop (Suc k) xs)"
  by (induction xs arbitrary: k) (auto split: option.splits if_splits simp: last_index_None)

lemma last_index_append:
  "c \<notin> set ys \<Longrightarrow> last_index c (xs @ c # ys) = Some (length xs)"
  by (induction xs) (auto simp: last_index_None split: option.splits)

lemma last_index_nth:
  assumes "k < length xs" and "xs ! k = c" and "c \<notin> set (drop (Suc k) xs)"
  shows "last_index c xs = Some k"
proof -
  have "xs = take k xs @ c # drop (Suc k) xs"
    using assms(1,2) by (metis id_take_nth_drop)
  then have "last_index c xs = last_index c (take k xs @ c # drop (Suc k) xs)"
    by simp
  also have "\<dots> = Some (length (take k xs))"
    using assms(3) by (rule last_index_append)
  finally show ?thesis using assms(1) by simp
qed

lemma size_t_wrap: "size_t_add npos (Suc 0) = 0"
  by (simp add: size_t_add_def npos_def SIZE_MAX_def)

lemma size_t_add_le: "size_t_add a (Suc 0) \<le> Suc a"
  by (simp add: size_t_add_def)

lemma size_t_add_small: "Suc a < 2 ^ 64 \<Longrightarrow> size_t_add a (Suc 0) = Suc a"
  by (simp add: size_t_add_def)

lemma size_t_sub_small:
  assumes "b \<le> a" and "a < 2 ^ 64"
  shows "size_t_sub a b = a - b"
proof -
  have "a + 2 ^ 64 - b = (a - b) + 2 ^ 64"
    using assms(1) by simp
  then have "size_t_sub a b = ((a - b) + 2 ^ 64) mod 2 ^ 64"
    by (simp only: size_t_sub_def)
  also have "\<dots> = (a - b) mod 2 ^ 64"
    by (rule mod_add_self2)
  also have "\<dots> = a - b"
    using assms(2) by simp
  finally show ?thesis .
qed

lemma npos_less: "npos < 2 ^ 64"
  by (simp add: npos_def SIZE_MAX_def)

lemma le_npos: "a \<le> npos \<longleftrightarrow> a < 2 ^ 64"
  by (auto simp: npos_def SIZE_MAX_def)

lemma takeWhile_until: "x \<notin> set s \<Longrightarrow> takeWhile (\<lambda>c. c \<noteq> x) (s @ x # r) = s"
  by (induction s) auto

lemma string_view_of_c_str:
  "NUL \<notin> set s \<Longrightarrow> string_view_of (c_str s) = Inr (sv_literal s)"
  by (simp add: string_view_of_def c_str_def sv_literal_def takeWhile_until)

lemma sv_chars_literal: "sv_chars (sv_literal s) = s"
  by (simp add: sv_chars_def sv_literal_def c_str_def)

text \<open>The position \<open>start\<close> lies within the view, whatever the view holds.\<close>

lemma length_sv_chars: "length (sv_chars v) = min (sv_size v) (length (ptr_chars (sv_data v)))"
  by (simp add: sv_chars_def)

lemma toEnumName_start_le: "toEnumName_start v \<le> sv_size v"
proof (cases "last_index CHR '':'' (sv_chars v)")
  case None
  then show ?thesis
    by (simp add: toEnumName_start_def find_last_of_def size_t_wrap)
next
  case (Some p)
  then have "p < length (sv_chars v)"
    by (simp add: last_index_Some)
  then have "Suc p \<le> sv_size v"
    by (simp add: length_sv_chars)
  moreover have "toEnumName_start v \<le> Suc p"
    using Some by (simp add: toEnumName_start_def find_last_of_def size_t_add_le)
  ultimately show ?thesis by simp
qed

lemma length_takeWhile_until:
  "x \<in> set xs \<Longrightarrow> length (takeWhile (\<lambda>c. c \<noteq> x) xs) < length xs"
  by (induction xs) auto

lemma string_view_of_size:
  "string_view_of p = Inr v \<Longrightarrow> sv_data v = p \<and> sv_size v < length (ptr_chars p)"
  by (auto simp: string_view_of_def length_takeWhile_until split: if_splits)

subsection \<open>The extraction in closed form\<close>

lemma toEnumName_eq:
  assumes "string_view_of p = Inr v"
  shows "toEnumName p =
    (if take (size_t_sub (toEnumName_end v) (toEnumName_start v))
          (drop (toEnumName_start v) (sv_chars v)) = []
     then Inl zero_size_array
     else Inr \<lparr>fs_data = take (size_t_sub (toEnumName_end v) (toEnumName_start v))
                            (drop (toEnumName_start v) (sv_chars v))\<rparr>)"
proof -
  define start where "start = toEnumName_start v"
  define cnt where "cnt = size_t_sub (toEnumName_end v) start"
  define name where "name = take cnt (drop start (sv_chars v))"
  have v: "sv_data v = p" "sv_size v < length (ptr_chars p)"
    using assms by (simp_all add: string_view_of_size)
  have start: "start \<le> sv_size v"
    unfolding start_def by (rule toEnumName_start_le)
  have sub: "substr v start cnt =
      Inr \<lparr>sv_data = ptr_add p start, sv_size = min cnt (sv_size v - start)\<rparr>"
    using start v(1) by (simp add: substr_def)
  have name: "take (min cnt (sv_size v - start)) (drop start (ptr_chars p)) = name"
    by (simp add: name_def sv_chars_def v(1) drop_take min.commute)
  have len: "length name = min cnt (sv_size v - start)"
    using v(2) by (simp add: name_def sv_chars_def v(1))
  have fits: "min cnt (sv_size v - start) \<le> length (ptr_chars (ptr_add p start))"
    using v(2) by (simp add: ptr_add_def)
  have "FixedString (min cnt (sv_size v - start)) (ptr_add p start) =
      (if name = [] then Inl zero_size_array else Inr \<lparr>fs_data = name\<rparr>)"
    using fits len name by (auto simp: FixedString_def ptr_add_def)
  then have "toEnumName p = (if name = [] then Inl zero_size_array else Inr \<lparr>fs_data = name\<rparr>)"
    using assms sub
    by (simp add: toEnumName_def Let_def start_def [symmetric] cnt_def [symmetric])
  then show ?thesis
    by (simp add: name_def cnt_def start_def)
qed

lemma toEnumName_c_str:
  assumes "NUL \<notin> set s"
  shows "toEnumName (c_str s) =
    (if take (size_t_sub (toEnumName_end (sv_literal s)) (toEnumName_start (sv_literal s)))
          (drop (toEnumName_start (sv_literal s)) s) = []
     then Inl zero_size_array
     else Inr \<lparr>fs_data =
       take (size_t_sub (toEnumName_end (sv_literal s)) (toEnumName_start (sv_literal s)))
            (drop (toEnumName_start (sv_literal s)) s)\<rparr>)"
  using toEnumName_eq [OF string_view_of_c_str [OF assms]] by (simp add: sv_chars_literal)

lemma toEnumName_end_npos:
  assumes "CHR ''>'' \<notin> set (drop (toEnumName_start v) (sv_chars v))"
  shows "toEnumName_end v = npos"
  using assms by (simp add: toEnumName_end_def find_first_of_def first_index_None [THEN iffD2])

subsection \<open>The positions that the code computes\<close>

lemma toEnumName_start_eq:
  assumes "0 < start" and "start \<le> length s" and "s ! (start - 1) = CHR '':''"
    and "CHR '':'' \<notin> set (drop start s)" and "length s < 2 ^ 64"
  shows "toEnumName_start (sv_literal s) = start"
proof -
  have "start - 1 < length s" "CHR '':'' \<notin> set (drop (Suc (start - 1)) s)"
    using assms(1,2,4) by simp_all
  then have "last_index CHR '':'' s = Some (start - 1)"
    using assms(3) by (intro last_index_nth)
  then have "find_last_of (sv_literal s) CHR '':'' = start - 1"
    by (simp add: find_last_of_def sv_chars_literal)
  moreover have "Suc (start - 1) < 2 ^ 64"
    using assms(1,2,5) by simp
  ultimately show ?thesis
    using assms(1) by (simp add: toEnumName_start_def size_t_add_small)
qed

lemma toEnumName_end_eq:
  assumes "toEnumName_start (sv_literal s) = start"
    and "start \<le> end'" and "end' < length s" and "s ! end' = CHR ''>''"
    and "CHR ''>'' \<notin> set (take (end' - start) (drop start s))"
  shows "toEnumName_end (sv_literal s) = end'"
proof -
  have "first_index CHR ''>'' (drop start s) = Some (end' - start)"
  proof (rule first_index_nth)
    show "end' - start < length (drop start s)"
      using assms(2,3) by simp
    show "drop start s ! (end' - start) = CHR ''>''"
      using assms(2,3,4) by simp
    show "CHR ''>'' \<notin> set (take (end' - start) (drop start s))"
      by (rule assms(5))
  qed
  then have "find_first_of (sv_literal s) CHR ''>'' start = end'"
    using assms(2) by (simp add: find_first_of_def sv_chars_literal)
  then show ?thesis
    by (simp add: toEnumName_end_def assms(1))
qed

lemma toEnumName_between:
  assumes "NUL \<notin> set s" and "length s < 2 ^ 64"
    and "toEnumName_start (sv_literal s) = start" and "toEnumName_end (sv_literal s) = end'"
    and "start < end'" and "end' < length s"
  shows "toEnumName (c_str s) = Inr \<lparr>fs_data = take (end' - start) (drop start s)\<rparr>"
proof -
  have "size_t_sub end' start = end' - start"
    using assms(2,5,6) by (intro size_t_sub_small) simp_all
  moreover have "take (end' - start) (drop start s) \<noteq> []"
    using assms(5,6) by simp
  ultimately show ?thesis
    using assms(1) by (simp add: toEnumName_c_str assms(3,4))
qed

lemma scope_then_closing_colon: "scope_then_closing xs \<Longrightarrow> CHR '':'' \<in> set xs"
  by (induction xs) auto

lemma identifier_char:
  assumes "d \<in> set nondigit \<or> d \<in> set digit"
  shows "d \<noteq> CHR '':''" and "d \<noteq> CHR ''>''" and "d \<noteq> NUL"
  using assms by (auto simp: nondigit_def digit_def NUL_def)

lemma is_identifier_chars:
  assumes "is_identifier s"
  shows "s \<noteq> []" and "CHR '':'' \<notin> set s" and "CHR ''>'' \<notin> set s" and "NUL \<notin> set s"
proof -
  obtain c cs where s: "s = c # cs" and c: "c \<in> set nondigit"
      and cs: "\<forall>d \<in> set cs. d \<in> set nondigit \<or> d \<in> set digit"
    using assms by (auto simp: is_identifier_def list_all_iff split: list.splits)
  have all: "\<And>d. d \<in> set s \<Longrightarrow> d \<in> set nondigit \<or> d \<in> set digit"
    using s c cs by auto
  show "s \<noteq> []" using s by simp
  show "CHR '':'' \<notin> set s" using all identifier_char(1) by blast
  show "CHR ''>'' \<notin> set s" using all identifier_char(2) by blast
  show "NUL \<notin> set s" using all identifier_char(3) by blast
qed

subsection \<open>Signatures that keep the contract\<close>

lemma signature_with_positions:
  assumes "is_identifier ident" and "CHR '':'' \<notin> set post"
    and "length (signature_with pre ident post) < 2 ^ 64"
  shows "toEnumName_start (sv_literal (signature_with pre ident post)) = length pre + 2"
    and "toEnumName_end (sv_literal (signature_with pre ident post))
      = length pre + 2 + length ident"
proof -
  let ?s = "signature_with pre ident post"
  note id = is_identifier_chars [OF assms(1)]
  show s: "toEnumName_start (sv_literal ?s) = length pre + 2"
  proof (rule toEnumName_start_eq)
    show "0 < length pre + 2" by simp
    show "length pre + 2 \<le> length ?s" by (simp add: signature_with_def)
    show "?s ! (length pre + 2 - 1) = CHR '':''"
      by (simp add: signature_with_def nth_append)
    show "CHR '':'' \<notin> set (drop (length pre + 2) ?s)"
      using id(2) assms(2) by (simp add: signature_with_def)
    show "length ?s < 2 ^ 64" by (rule assms(3))
  qed
  show "toEnumName_end (sv_literal ?s) = length pre + 2 + length ident"
    using s
  proof (rule toEnumName_end_eq)
    show "length pre + 2 \<le> length pre + 2 + length ident" by simp
    show "length pre + 2 + length ident < length ?s" by (simp add: signature_with_def)
    show "?s ! (length pre + 2 + length ident) = CHR ''>''"
      by (simp add: signature_with_def nth_append)
    show "CHR ''>'' \<notin> set (take (length pre + 2 + length ident - (length pre + 2))
        (drop (length pre + 2) ?s))"
      using id(3) by (simp add: signature_with_def)
  qed
qed

lemma toEnumName_signature_with:
  assumes "is_identifier ident" and "CHR '':'' \<notin> set post"
    and "NUL \<notin> set pre" and "NUL \<notin> set post"
    and "length (signature_with pre ident post) < 2 ^ 64"
  shows "toEnumName (c_str (signature_with pre ident post)) = Inr \<lparr>fs_data = ident\<rparr>"
proof -
  let ?s = "signature_with pre ident post"
  note id = is_identifier_chars [OF assms(1)]
  have nul: "NUL \<notin> set ?s"
    using assms(3,4) id(4) by (simp add: signature_with_def NUL_def)
  have "toEnumName (c_str ?s) =
      Inr \<lparr>fs_data = take (length pre + 2 + length ident - (length pre + 2))
                             (drop (length pre + 2) ?s)\<rparr>"
    using nul assms(5) signature_with_positions [OF assms(1,2,5)]
  proof (rule toEnumName_between)
    show "length pre + 2 < length pre + 2 + length ident"
      using id(1) by simp
    show "length pre + 2 + length ident < length ?s"
      by (simp add: signature_with_def)
  qed
  moreover have "take (length pre + 2 + length ident - (length pre + 2))
      (drop (length pre + 2) ?s) = ident"
    by (simp add: signature_with_def)
  ultimately show ?thesis by simp
qed

lemma n_signature_with:
  "n (q @ ''::'' @ m) = c_str (signature_with (''auto __cdecl EnumString::n<'' @ q) m ''(void) noexcept'')"
  by (simp add: n_def signature_with_def)

subsection \<open>Enumeration types\<close>

lemma well_formed_Rep: "well_formed (Rep_enum_decl EnumT)"
  using Rep_enum_decl [of EnumT] by simp

lemma enum_declaration_simps:
  assumes "well_formed \<lparr>syn_kind = k, syn_qual_name = q, syn_enumerators = ms\<rparr>"
  shows "kind (enum_declaration k q ms) = k"
    and "qual_name (enum_declaration k q ms) = q"
    and "enumerators (enum_declaration k q ms) = ms"
  using assms
  by (simp_all add: kind_def qual_name_def enumerators_def enum_declaration_def
      Abs_enum_decl_inverse)

lemma well_formed_member:
  assumes "E < length (enumerators EnumT)"
  shows "is_identifier (enumerators EnumT ! E)" and "length (enumerators EnumT ! E) < 2 ^ 32"
    and "NUL \<notin> set (qual_name EnumT)" and "length (qual_name EnumT) < 2 ^ 32"
  using assms well_formed_Rep [of EnumT]
  by (simp_all add: well_formed_def list_all_length enumerators_def qual_name_def)

subsection \<open>Names of enumerators and the table\<close>

lemma enumName_well_formed:
  assumes "SizedEnum EnumT" and "E < length (enumerators EnumT)"
  shows "enumName EnumT E = Inr \<lparr>fs_data = enumerators EnumT ! E\<rparr>"
proof -
  let ?m = "enumerators EnumT ! E"
  let ?pre = "''auto __cdecl EnumString::n<'' @ qual_name EnumT"
  note wf = well_formed_member [OF assms(2)]
  have len: "length (signature_with ?pre ?m ''(void) noexcept'') < 2 ^ 64"
    using wf(2,4) by (simp add: signature_with_def)
  have name: "toEnumName (c_str (signature_with ?pre ?m ''(void) noexcept'')) = Inr \<lparr>fs_data = ?m\<rparr>"
    using wf(1) _ _ _ len
  proof (rule toEnumName_signature_with)
    show "CHR '':'' \<notin> set ''(void) noexcept''" by simp
    show "NUL \<notin> set ?pre" using wf(3) by (simp add: NUL_def)
    show "NUL \<notin> set ''(void) noexcept''" by (simp add: NUL_def)
  qed
  have "enumName EnumT E = toEnumName (n (qual_name EnumT @ ''::'' @ ?m))"
    using assms by (simp add: enumName_def spelling_def)
  also have "\<dots> = toEnumName (c_str (signature_with ?pre ?m ''(void) noexcept''))"
    by (simp only: n_signature_with)
  finally show ?thesis
    by (simp only: name)
qed

lemma expand_pack_elements:
  assumes "SizedEnum EnumT" and "\<forall>I \<in> set Is. I < length (enumerators EnumT)"
  shows "expand_pack EnumT Is =
    Inr (map (\<lambda>I. to_string_view (enumName_var (qual_name EnumT) I)
                    \<lparr>fs_data = enumerators EnumT ! I\<rparr>) Is)"
  using assms(2)
  by (induction Is) (simp_all add: enumName_well_formed [OF assms(1)])

lemma to_underlying_enumSize_Some:
  assumes "SizedEnum EnumT"
  shows "\<exists>N. to_underlying_enumSize EnumT = Some N \<and> N < length (enumerators EnumT) \<and>
    enumerators EnumT ! N = ''enumSize''"
proof (cases "first_index ''enumSize'' (enumerators EnumT)")
  case None
  then show ?thesis
    using assms by (simp add: first_index_None SizedEnum_def)
next
  case (Some N)
  then show ?thesis
    using first_index_Some [OF Some] by (simp add: to_underlying_enumSize_def)
qed

lemma makeEnumString_SizedEnum:
  assumes "SizedEnum EnumT" and "to_underlying_enumSize EnumT = Some N"
  shows "makeEnumString EnumT = expand_pack EnumT [0..<N]"
    and "enumNames EnumT = expand_pack EnumT [0..<N]"
proof -
  have "generateEnumNames EnumT [0..<N] = expand_pack EnumT [0..<N]"
    using assms by (simp add: generateEnumNames_def split: sum.splits)
  then show "makeEnumString EnumT = expand_pack EnumT [0..<N]"
    and "enumNames EnumT = expand_pack EnumT [0..<N]"
    using assms by (simp_all add: makeEnumString_def enumNames_def)
qed

lemma makeEnumString_not_SizedEnum:
  "\<not> SizedEnum EnumT \<Longrightarrow> makeEnumString EnumT = Inl constraint_not_satisfied"
  by (simp add: makeEnumString_def)

lemma makeEnumString_well_formed:
  assumes "SizedEnum EnumT" and "to_underlying_enumSize EnumT = Some N"
  shows "makeEnumString EnumT =
    Inr (map (\<lambda>i. to_string_view (enumName_var (qual_name EnumT) i)
                    \<lparr>fs_data = enumerators EnumT ! i\<rparr>) [0..<N])"
proof -
  have "N < length (enumerators EnumT)"
    using to_underlying_enumSize_Some [OF assms(1)] assms(2) by simp
  then have "\<forall>I \<in> set [0..<N]. I < length (enumerators EnumT)"
    by simp
  then show ?thesis
    by (simp only: makeEnumString_SizedEnum(1) [OF assms] expand_pack_elements [OF assms(1)])
qed

lemma makeEnumString_elements:
  assumes "SizedEnum EnumT"
  shows "\<exists>N tbl. to_underlying_enumSize EnumT = Some N \<and> N < length (enumerators EnumT) \<and>
    makeEnumString EnumT = Inr tbl \<and> enumNames EnumT = Inr tbl \<and> length tbl = N \<and>
    (\<forall>i < N. enumName EnumT i = Inr \<lparr>fs_data = enumerators EnumT ! i\<rparr> \<and>
       tbl ! i = to_string_view (enumName_var (qual_name EnumT) i)
                   \<lparr>fs_data = enumerators EnumT ! i\<rparr>)"
proof -
  obtain N where N: "to_underlying_enumSize EnumT = Some N" "N < length (enumerators EnumT)"
    using to_underlying_enumSize_Some [OF assms] by auto
  let ?tbl = "map (\<lambda>i. to_string_view (enumName_var (qual_name EnumT) i)
                    \<lparr>fs_data = enumerators EnumT ! i\<rparr>) [0..<N]"
  have m: "makeEnumString EnumT = Inr ?tbl"
    using assms N(1) by (rule makeEnumString_well_formed)
  have e: "enumNames EnumT = Inr ?tbl"
    using m makeEnumString_SizedEnum [OF assms N(1)] by simp
  have el: "\<forall>i < N. enumName EnumT i = Inr \<lparr>fs_data = enumerators EnumT ! i\<rparr> \<and>
       ?tbl ! i = to_string_view (enumName_var (qual_name EnumT) i)
                   \<lparr>fs_data = enumerators EnumT ! i\<rparr>"
    using N(2) by (simp add: enumName_well_formed [OF assms])
  have l: "length ?tbl = N"
    by simp
  show ?thesis
    using N m e l el by blast
qed

lemma sv_chars_to_string_view: "sv_chars (to_string_view ob fs) = fs_data fs"
  by (simp add: sv_chars_def to_string_view_def)

subsection \<open>The enumerations of the header and of the demo\<close>

lemma example_Fruit_simps:
  "kind example_Fruit = scoped_enum"
  "qual_name example_Fruit = ''Fruit''"
  "enumerators example_Fruit = [''apple'', ''banana'', ''pear'', ''enumSize'']"
  unfolding example_Fruit_def
  by (rule enum_declaration_simps;
      simp add: well_formed_def is_identifier_def nondigit_def digit_def NUL_def)+

lemma Fruit_simps:
  "kind Fruit = scoped_enum"
  "qual_name Fruit = ''Fruit''"
  "enumerators Fruit =
     [''apple'', ''banana'', ''cherry'', ''grape'', ''grapefruit'', ''kiwi'',
      ''lemon'', ''lime'', ''melon'', ''orange'', ''pear'', ''pineapple'', ''plum'',
      ''raspberry'', ''strawberry'', ''enumSize'']"
  unfolding Fruit_def
  by (rule enum_declaration_simps;
      simp add: well_formed_def is_identifier_def nondigit_def digit_def NUL_def)+

lemma SizedEnum_Fruit: "SizedEnum Fruit"
  by (simp add: SizedEnum_def is_scoped_enum_v_def Fruit_simps)

lemma to_underlying_enumSize_Fruit: "to_underlying_enumSize Fruit = Some 15"
  by (simp add: to_underlying_enumSize_def Fruit_simps)

lemma makeEnumString_Fruit:
  "makeEnumString Fruit =
    Inr (map (\<lambda>i. to_string_view (enumName_var (qual_name Fruit) i)
                    \<lparr>fs_data = enumerators Fruit ! i\<rparr>) [0..<15])"
  using SizedEnum_Fruit to_underlying_enumSize_Fruit
  by (rule makeEnumString_well_formed)

lemma main_eq:
  "main =
    Inr (concat (map println
       [''List of fruits:'', [], '' 0: apple'', '' 1: banana'', '' 2: cherry'', '' 3: grape'',
        '' 4: grapefruit'', '' 5: kiwi'', '' 6: lemon'', '' 7: lime'', '' 8: melon'',
        '' 9: orange'', ''10: pear'', ''11: pineapple'', ''12: plum'', ''13: raspberry'',
        ''14: strawberry'']), 0)"
  unfolding main_def makeEnumString_Fruit Fruit_simps
  by code_simp

text \<open>
  Every element of the table is the view \<^verbatim>\<open>{ data_, Size }\<close> of the variable
  \<^verbatim>\<open>enumName<EnumT, i>\<close>: its pointer is the start of that variable's array.
\<close>

lemma makeEnumString_pointers:
  assumes "makeEnumString EnumT = Inr tbl" and "i < length tbl"
  shows "tbl ! i = to_string_view (enumName_var (qual_name EnumT) i)
                     \<lparr>fs_data = enumerators EnumT ! i\<rparr>"
proof -
  have s: "SizedEnum EnumT"
    using assms(1) by (auto simp: makeEnumString_def split: if_splits)
  from makeEnumString_elements [OF s] assms
  show ?thesis
    by auto
qed

subsection \<open>The assertions of the header\<close>

text \<open>The two \<^verbatim>\<open>static_assert\<close> declarations that follow \<^verbatim>\<open>FixedString\<close> hold.\<close>

lemma static_assert_name:
  "\<exists>fs. FixedString 4 (c_str ''name'') = Inr fs \<and>
     sv_eq (sv_literal ''name'') (to_string_view temporary fs)"
  by (simp add: FixedString_def c_str_def sv_eq_def sv_chars_to_string_view sv_chars_literal)
     (simp add: sv_literal_def to_string_view_def)

lemma static_assert_test:
  "\<exists>v fs. substr (sv_literal ''retested'') 2 4 = Inr v \<and> FixedString 4 (sv_data v) = Inr fs \<and>
     sv_eq (sv_literal ''test'') (to_string_view temporary fs)"
  by (simp add: substr_def FixedString_def ptr_add_def c_str_def sv_eq_def
      sv_chars_to_string_view sv_chars_literal)
     (simp add: sv_literal_def to_string_view_def c_str_def)

section \<open>The claims of the specification\<close>

text \<open>
  Claim C1. For an eligible enumeration whose sentinel has the value \<open>N\<close>, element \<open>i\<close> of the
  table that \<^verbatim>\<open>makeEnumString\<close> returns is, for every \<open>i < N\<close>, the identifier of the member
  with the value \<open>i\<close>: the bare identifier, without qualification or surrounding whitespace,
  the members in ascending order of their values.
\<close>

theorem makeEnumString_names:
  assumes "SizedEnum EnumT"
  shows "\<exists>N tbl. to_underlying_enumSize EnumT = Some N \<and> makeEnumString EnumT = Inr tbl \<and>
    length tbl = N \<and> map sv_chars tbl = take N (enumerators EnumT) \<and>
    (\<forall>i < N. sv_chars (tbl ! i) = enumerators EnumT ! i \<and> is_identifier (sv_chars (tbl ! i)))"
proof -
  from makeEnumString_elements [OF assms]
  obtain N tbl where N: "to_underlying_enumSize EnumT = Some N" "N < length (enumerators EnumT)"
    and tbl: "makeEnumString EnumT = Inr tbl" "length tbl = N"
    and el: "\<forall>i < N. tbl ! i = to_string_view (enumName_var (qual_name EnumT) i)
                   \<lparr>fs_data = enumerators EnumT ! i\<rparr>"
    by blast
  have name: "sv_chars (tbl ! i) = enumerators EnumT ! i" if "i < N" for i
    using el that by (simp add: sv_chars_to_string_view)
  have ident: "is_identifier (sv_chars (tbl ! i))" if "i < N" for i
    using that N(2) name well_formed_member(1) [of i EnumT] by simp
  have "map sv_chars tbl = take N (enumerators EnumT)"
    using tbl(2) N(2) name by (auto intro!: nth_equalityI)
  then show ?thesis
    using N(1) tbl name ident by blast
qed

theorem makeEnumString_names_witness:
  "SizedEnum example_Fruit \<and>
   (\<exists>tbl. makeEnumString example_Fruit = Inr tbl \<and>
      map sv_chars tbl = [''apple'', ''banana'', ''pear''])"
proof -
  have s: "SizedEnum example_Fruit"
    by (simp add: SizedEnum_def is_scoped_enum_v_def example_Fruit_simps)
  have n: "to_underlying_enumSize example_Fruit = Some 3"
    by (simp add: to_underlying_enumSize_def example_Fruit_simps)
  have t: "take 3 (enumerators example_Fruit) = [''apple'', ''banana'', ''pear'']"
    by (simp add: example_Fruit_simps)
  show ?thesis
    using makeEnumString_names [OF s] s n t by auto
qed

text \<open>
  Claim C2. For an eligible enumeration whose sentinel has the value \<open>N\<close>, the table that
  \<^verbatim>\<open>makeEnumString\<close> returns has exactly \<open>N\<close> elements; an enumeration that consists of the
  sentinel alone yields the empty table.
\<close>

theorem makeEnumString_length:
  assumes "SizedEnum EnumT"
  shows "\<exists>N tbl. to_underlying_enumSize EnumT = Some N \<and> makeEnumString EnumT = Inr tbl \<and>
    length tbl = N \<and> (enumerators EnumT = [''enumSize''] \<longrightarrow> N = 0 \<and> tbl = [])"
proof -
  from makeEnumString_elements [OF assms]
  obtain N tbl where N: "to_underlying_enumSize EnumT = Some N"
    and tbl: "makeEnumString EnumT = Inr tbl" "length tbl = N"
    by blast
  have "N = 0" if "enumerators EnumT = [''enumSize'']"
    using N that by (simp add: to_underlying_enumSize_def)
  then show ?thesis
    using N tbl by auto
qed

theorem makeEnumString_length_witness:
  "SizedEnum (enum_declaration scoped_enum ''Empty'' [''enumSize'']) \<and>
   makeEnumString (enum_declaration scoped_enum ''Empty'' [''enumSize'']) = Inr []"
proof -
  let ?E = "enum_declaration scoped_enum ''Empty'' [''enumSize'']"
  have w: "well_formed
      \<lparr>syn_kind = scoped_enum, syn_qual_name = ''Empty'', syn_enumerators = [''enumSize'']\<rparr>"
    by (simp add: well_formed_def is_identifier_def nondigit_def digit_def NUL_def)
  have e: "enumerators ?E = [''enumSize'']"
    using w by (rule enum_declaration_simps)
  have s: "SizedEnum ?E"
    by (simp add: SizedEnum_def is_scoped_enum_v_def enum_declaration_simps [OF w])
  show ?thesis
    using makeEnumString_length [OF s] s e by auto
qed

text \<open>
  Claim C3, as stated, fails: the code looks for the last colon of the text, not for the
  last scope-separator token. In \<^verbatim>\<open>a::b:c>d\<close> the specification's positions are 3 and 6 and
  delimit \<^verbatim>\<open>b:c\<close>, while the code starts after the single colon and extracts \<^verbatim>\<open>c\<close>.
  In \<^verbatim>\<open>a::>b\<close> the two positions coincide, and the code has no buffer for the empty range.
\<close>

theorem toEnumName_slice_counterexample:
  "spec_positions ''a::b:c>d'' 3 6 \<and> take (6 - 3) (drop 3 ''a::b:c>d'') = ''b:c'' \<and>
   toEnumName (c_str ''a::b:c>d'') = Inr \<lparr>fs_data = ''c''\<rparr> \<and>
   spec_positions ''a::>b'' 3 3 \<and> toEnumName (c_str ''a::>b'') = Inl zero_size_array"
proof -
  let ?s = "''a::b:c>d''"
  let ?e = "''a::>b''"
  have p: "spec_positions ?s 3 6"
    by (simp add: spec_positions_def)
  have t: "take (6 - 3) (drop 3 ?s) = ''b:c''"
    by simp
  have n: "NUL \<notin> set ?s"
    by (simp add: NUL_def)
  have l: "length ?s < 2 ^ 64"
    by simp
  have s: "toEnumName_start (sv_literal ?s) = 5"
    by (rule toEnumName_start_eq) simp_all
  have e: "toEnumName_end (sv_literal ?s) = 6"
    using s by (rule toEnumName_end_eq) simp_all
  have "toEnumName (c_str ?s) = Inr \<lparr>fs_data = take (6 - 5) (drop 5 ?s)\<rparr>"
    using n l s e by (rule toEnumName_between) simp_all
  then have c: "toEnumName (c_str ?s) = Inr \<lparr>fs_data = ''c''\<rparr>"
    by simp
  have p': "spec_positions ?e 3 3"
    by (simp add: spec_positions_def)
  have n': "NUL \<notin> set ?e"
    by (simp add: NUL_def)
  have s': "toEnumName_start (sv_literal ?e) = 3"
    by (rule toEnumName_start_eq) simp_all
  have e': "toEnumName_end (sv_literal ?e) = 3"
    using s' by (rule toEnumName_end_eq) simp_all
  have "take (size_t_sub (toEnumName_end (sv_literal ?e)) (toEnumName_start (sv_literal ?e)))
      (drop (toEnumName_start (sv_literal ?e)) ?e) = []"
    by (simp add: s' e' size_t_sub_def)
  then have "toEnumName (c_str ?e) =
      (if ([]::string) = [] then Inl zero_size_array else Inr \<lparr>fs_data = []\<rparr>)"
    using toEnumName_c_str [OF n'] by (simp only:)
  then have c': "toEnumName (c_str ?e) = Inl zero_size_array"
    by simp
  show ?thesis
    by (intro conjI p t c p' c')
qed

text \<open>
  Claim C3, amended. For every signature in which no colon follows the position \<open>start\<close> and
  in which the range is not empty, the extraction returns the part of the signature from
  \<open>start\<close> up to \<open>end'\<close>, where \<open>start\<close> is the position immediately after the last
  scope-separator token that occurs before the first subsequent generic-closing token, and
  \<open>end'\<close> is the position of that generic-closing token.
\<close>

theorem toEnumName_slice:
  assumes "NUL \<notin> set s" and "length s < 2 ^ 64" and "spec_positions s start end'"
    and "CHR '':'' \<notin> set (drop start s)" and "start < end'"
  shows "toEnumName_start (sv_literal s) = start \<and> toEnumName_end (sv_literal s) = end' \<and>
    toEnumName (c_str s) = Inr \<lparr>fs_data = take (end' - start) (drop start s)\<rparr>"
proof -
  have p: "2 \<le> start" "start \<le> end'" "end' < length s" "s ! (start - 1) = CHR '':''"
      "s ! end' = CHR ''>''" "CHR ''>'' \<notin> set (take (end' - start) (drop start s))"
    using assms(3) by (simp_all add: spec_positions_def)
  have s: "toEnumName_start (sv_literal s) = start"
    using p(1,2,3,4) assms(2,4) by (intro toEnumName_start_eq) simp_all
  have e: "toEnumName_end (sv_literal s) = end'"
    using s p(2,3,5,6) by (rule toEnumName_end_eq)
  have "toEnumName (c_str s) = Inr \<lparr>fs_data = take (end' - start) (drop start s)\<rparr>"
    using assms(1,2) s e assms(5) p(3) by (rule toEnumName_between)
  then show ?thesis
    using s e by simp
qed

theorem toEnumName_slice_witness:
  "NUL \<notin> set ''auto __cdecl EnumString::n<Fruit::apple>(void) noexcept'' \<and>
   spec_positions ''auto __cdecl EnumString::n<Fruit::apple>(void) noexcept'' 34 39 \<and>
   CHR '':'' \<notin> set (drop 34 ''auto __cdecl EnumString::n<Fruit::apple>(void) noexcept'') \<and>
   toEnumName (c_str ''auto __cdecl EnumString::n<Fruit::apple>(void) noexcept'')
     = Inr \<lparr>fs_data = ''apple''\<rparr>"
proof -
  let ?s = "''auto __cdecl EnumString::n<Fruit::apple>(void) noexcept''"
  have a: "NUL \<notin> set ?s"
    by (simp add: NUL_def)
  have b: "length ?s < 2 ^ 64"
    by simp
  have c: "spec_positions ?s 34 39"
    by (simp add: spec_positions_def)
  have d: "CHR '':'' \<notin> set (drop 34 ?s)"
    by simp
  have e: "(34::nat) < 39"
    by simp
  show ?thesis
    using toEnumName_slice [OF a b c d e] a c d by simp
qed

text \<open>
  Claim C4, as stated, fails: a scoped enumeration in which \<^verbatim>\<open>enumSize\<close> is not the final
  member passes the concept, although it is not eligible in the sense of the specification.
\<close>

theorem SizedEnum_counterexample:
  "SizedEnum (enum_declaration scoped_enum ''E'' [''a'', ''enumSize'', ''b'']) \<and>
   \<not> spec_isEligible (enum_declaration scoped_enum ''E'' [''a'', ''enumSize'', ''b'']) \<and>
   map_sum id (map sv_chars)
     (makeEnumString (enum_declaration scoped_enum ''E'' [''a'', ''enumSize'', ''b'']))
     = Inr [''a'']"
proof -
  let ?E = "enum_declaration scoped_enum ''E'' [''a'', ''enumSize'', ''b'']"
  have w: "well_formed \<lparr>syn_kind = scoped_enum, syn_qual_name = ''E'',
      syn_enumerators = [''a'', ''enumSize'', ''b'']\<rparr>"
    by (simp add: well_formed_def is_identifier_def nondigit_def digit_def NUL_def)
  note E = enum_declaration_simps [OF w]
  have s: "SizedEnum ?E"
    by (simp add: SizedEnum_def is_scoped_enum_v_def E)
  have e: "\<not> spec_isEligible ?E"
    by (simp add: spec_isEligible_def E)
  have n: "to_underlying_enumSize ?E = Some 1"
    by (simp add: to_underlying_enumSize_def E)
  have t: "map_sum id (map sv_chars) (makeEnumString ?E) = Inr [''a'']"
    by (simp add: makeEnumString_well_formed [OF s n] sv_chars_to_string_view E)
  show ?thesis
    by (intro conjI s e t)
qed

text \<open>
  Claim C4, amended. The concept \<^verbatim>\<open>SizedEnum\<close> is satisfied exactly by the scoped enumerations
  that have a member named \<^verbatim>\<open>enumSize\<close>, wherever it is declared; \<^verbatim>\<open>makeEnumString\<close> yields
  a table exactly for these. An unscoped enumeration and an enumeration without that member
  are rejected at translation time, and no table exists for them.
\<close>

theorem SizedEnum_gate:
  "(SizedEnum EnumT \<longleftrightarrow> kind EnumT = scoped_enum \<and> ''enumSize'' \<in> set (enumerators EnumT)) \<and>
   ((\<exists>tbl. makeEnumString EnumT = Inr tbl) \<longleftrightarrow> SizedEnum EnumT) \<and>
   (kind EnumT = unscoped_enum \<or> ''enumSize'' \<notin> set (enumerators EnumT) \<longrightarrow>
      makeEnumString EnumT = Inl constraint_not_satisfied \<and>
      enumNames EnumT = Inl constraint_not_satisfied)"
proof (intro conjI)
  show "SizedEnum EnumT \<longleftrightarrow> kind EnumT = scoped_enum \<and> ''enumSize'' \<in> set (enumerators EnumT)"
    by (simp add: SizedEnum_def is_scoped_enum_v_def)
  show "(\<exists>tbl. makeEnumString EnumT = Inr tbl) \<longleftrightarrow> SizedEnum EnumT"
  proof
    assume "\<exists>tbl. makeEnumString EnumT = Inr tbl"
    then show "SizedEnum EnumT"
      by (auto simp: makeEnumString_def split: if_splits)
  next
    assume "SizedEnum EnumT"
    then show "\<exists>tbl. makeEnumString EnumT = Inr tbl"
      using makeEnumString_elements by blast
  qed
  show "kind EnumT = unscoped_enum \<or> ''enumSize'' \<notin> set (enumerators EnumT) \<longrightarrow>
      makeEnumString EnumT = Inl constraint_not_satisfied \<and>
      enumNames EnumT = Inl constraint_not_satisfied"
    by (auto simp: makeEnumString_def enumNames_def SizedEnum_def is_scoped_enum_v_def)
qed

theorem SizedEnum_gate_witness:
  "SizedEnum example_Fruit \<and> (\<exists>tbl. makeEnumString example_Fruit = Inr tbl) \<and>
   makeEnumString
       (enum_declaration unscoped_enum ''Fruit'' [''apple'', ''banana'', ''pear'', ''enumSize''])
     = Inl constraint_not_satisfied \<and>
   makeEnumString (enum_declaration scoped_enum ''Fruit'' [''apple'', ''banana'', ''pear''])
     = Inl constraint_not_satisfied"
proof -
  let ?plain =
    "enum_declaration unscoped_enum ''Fruit'' [''apple'', ''banana'', ''pear'', ''enumSize'']"
  let ?unsized = "enum_declaration scoped_enum ''Fruit'' [''apple'', ''banana'', ''pear'']"
  have wp: "well_formed \<lparr>syn_kind = unscoped_enum, syn_qual_name = ''Fruit'',
      syn_enumerators = [''apple'', ''banana'', ''pear'', ''enumSize'']\<rparr>"
    by (simp add: well_formed_def is_identifier_def nondigit_def digit_def NUL_def)
  have wu: "well_formed \<lparr>syn_kind = scoped_enum, syn_qual_name = ''Fruit'',
      syn_enumerators = [''apple'', ''banana'', ''pear'']\<rparr>"
    by (simp add: well_formed_def is_identifier_def nondigit_def digit_def NUL_def)
  have a: "kind example_Fruit = scoped_enum \<and> ''enumSize'' \<in> set (enumerators example_Fruit)"
    by (simp add: example_Fruit_simps)
  have b: "kind ?plain = unscoped_enum \<or> ''enumSize'' \<notin> set (enumerators ?plain)"
    by (simp add: enum_declaration_simps [OF wp])
  have c: "kind ?unsized = unscoped_enum \<or> ''enumSize'' \<notin> set (enumerators ?unsized)"
    by (simp add: enum_declaration_simps [OF wu])
  show ?thesis
    using SizedEnum_gate [of example_Fruit] SizedEnum_gate [of ?plain]
      SizedEnum_gate [of ?unsized] a b c
    by blast
qed

text \<open>
  Claim C6, as stated, fails: a signature may hold the identifier between a scope-separator
  token and a generic-closing token and still have a scope separator later on. Then \<open>start\<close>
  follows that later separator, and when no generic-closing character comes after it, \<open>end'\<close>
  is the not-found position, which lies outside the string.
\<close>

theorem toEnumName_contract_counterexample:
  "is_identifier ''apple'' \<and>
   toEnumName_end (sv_literal (signature_with ''auto n<Fruit'' ''apple'' ''() [E = Fruit::apple]''))
     = npos \<and>
   \<not> npos \<le> length (signature_with ''auto n<Fruit'' ''apple'' ''() [E = Fruit::apple]'') \<and>
   toEnumName (c_str (signature_with ''auto n<Fruit'' ''apple'' ''() [E = Fruit::apple]''))
     = Inr \<lparr>fs_data = ''apple]''\<rparr>"
proof -
  let ?s = "signature_with ''auto n<Fruit'' ''apple'' ''() [E = Fruit::apple]''"
  have i: "is_identifier ''apple''"
    by (simp add: is_identifier_def nondigit_def digit_def)
  have n: "NUL \<notin> set ?s"
    by (simp add: signature_with_def NUL_def)
  have "last_index CHR '':'' ?s = Some 34"
    by (simp add: signature_with_def)
  then have s: "toEnumName_start (sv_literal ?s) = 35"
    by (simp add: toEnumName_start_def find_last_of_def sv_chars_literal size_t_add_def)
  have d: "drop 35 ?s = ''apple]''"
    by (simp add: signature_with_def)
  have e: "toEnumName_end (sv_literal ?s) = npos"
    by (rule toEnumName_end_npos) (simp add: s sv_chars_literal d)
  have l: "\<not> npos \<le> length ?s"
    by (simp add: npos_def SIZE_MAX_def signature_with_def)
  have "size_t_sub npos 35 = npos - 35"
    by (rule size_t_sub_small) (simp_all add: npos_def SIZE_MAX_def)
  then have "take (size_t_sub (toEnumName_end (sv_literal ?s)) (toEnumName_start (sv_literal ?s)))
      (drop (toEnumName_start (sv_literal ?s)) ?s) = ''apple]''"
    by (simp add: s e d npos_def SIZE_MAX_def)
  then have "toEnumName (c_str ?s) =
      (if ''apple]'' = [] then Inl zero_size_array else Inr \<lparr>fs_data = ''apple]''\<rparr>)"
    using toEnumName_c_str [OF n] by (simp only:)
  then have t: "toEnumName (c_str ?s) = Inr \<lparr>fs_data = ''apple]''\<rparr>"
    by simp
  show ?thesis
    by (intro conjI i e l t)
qed

text \<open>
  Claim C6, amended. For every signature that holds the identifier between a scope-separator
  token and a generic-closing token, and that has no scope-separator character after that
  closing token, the unchecked arithmetic yields \<open>start \<le> end'\<close> with both positions inside the
  string; \<^verbatim>\<open>substr\<close> succeeds, and the extracted name is the identifier.
\<close>

theorem toEnumName_contract:
  assumes "is_identifier ident" and "CHR '':'' \<notin> set post"
    and "NUL \<notin> set pre" and "NUL \<notin> set post"
    and "length (signature_with pre ident post) < 2 ^ 64"
  shows "toEnumName_start (sv_literal (signature_with pre ident post)) = length pre + 2 \<and>
    toEnumName_end (sv_literal (signature_with pre ident post)) = length pre + 2 + length ident \<and>
    toEnumName_start (sv_literal (signature_with pre ident post))
      \<le> toEnumName_end (sv_literal (signature_with pre ident post)) \<and>
    toEnumName_end (sv_literal (signature_with pre ident post))
      < length (signature_with pre ident post) \<and>
    (\<exists>nameView. substr (sv_literal (signature_with pre ident post))
         (toEnumName_start (sv_literal (signature_with pre ident post)))
         (size_t_sub (toEnumName_end (sv_literal (signature_with pre ident post)))
            (toEnumName_start (sv_literal (signature_with pre ident post)))) = Inr nameView \<and>
       sv_chars nameView = ident) \<and>
    toEnumName (c_str (signature_with pre ident post)) = Inr \<lparr>fs_data = ident\<rparr>"
proof -
  let ?s = "signature_with pre ident post"
  let ?v = "sv_literal ?s"
  have s: "toEnumName_start ?v = length pre + 2"
    using assms(1,2,5) by (rule signature_with_positions)
  have e: "toEnumName_end ?v = length pre + 2 + length ident"
    using assms(1,2,5) by (rule signature_with_positions)
  have l: "length pre + 2 + length ident < length ?s"
    by (simp add: signature_with_def)
  have "size_t_sub (length pre + 2 + length ident) (length pre + 2) = length ident"
    using size_t_sub_small [of "length pre + 2" "length pre + 2 + length ident"] l assms(5)
    by simp
  then have "substr ?v (length pre + 2) (size_t_sub (length pre + 2 + length ident) (length pre + 2))
      = Inr \<lparr>sv_data = ptr_add (c_str ?s) (length pre + 2), sv_size = length ident\<rparr>"
    using l by (simp add: substr_def sv_literal_def)
  then have "substr ?v (toEnumName_start ?v) (size_t_sub (toEnumName_end ?v) (toEnumName_start ?v))
      = Inr \<lparr>sv_data = ptr_add (c_str ?s) (length pre + 2), sv_size = length ident\<rparr>"
    by (simp only: s e)
  moreover have "sv_chars \<lparr>sv_data = ptr_add (c_str ?s) (length pre + 2), sv_size = length ident\<rparr>
      = ident"
    by (simp add: sv_chars_def ptr_add_def c_str_def signature_with_def)
  moreover have "toEnumName (c_str ?s) = Inr \<lparr>fs_data = ident\<rparr>"
    using assms by (rule toEnumName_signature_with)
  ultimately show ?thesis
    using s e l by simp
qed

theorem toEnumName_contract_witness:
  "is_identifier ''apple'' \<and>
   signature_with ''auto __cdecl EnumString::n<Fruit'' ''apple'' ''(void) noexcept''
     = ''auto __cdecl EnumString::n<Fruit::apple>(void) noexcept'' \<and>
   toEnumName_start (sv_literal ''auto __cdecl EnumString::n<Fruit::apple>(void) noexcept'') = 34 \<and>
   toEnumName_end (sv_literal ''auto __cdecl EnumString::n<Fruit::apple>(void) noexcept'') = 39 \<and>
   toEnumName (c_str ''auto __cdecl EnumString::n<Fruit::apple>(void) noexcept'')
     = Inr \<lparr>fs_data = ''apple''\<rparr>"
proof -
  let ?pre = "''auto __cdecl EnumString::n<Fruit''"
  let ?post = "''(void) noexcept''"
  have i: "is_identifier ''apple''"
    by (simp add: is_identifier_def nondigit_def digit_def)
  have c: "CHR '':'' \<notin> set ?post"
    by simp
  have n1: "NUL \<notin> set ?pre"
    by (simp add: NUL_def)
  have n2: "NUL \<notin> set ?post"
    by (simp add: NUL_def)
  have g: "signature_with ?pre ''apple'' ?post
      = ''auto __cdecl EnumString::n<Fruit::apple>(void) noexcept''"
    by (simp add: signature_with_def)
  have l: "length (signature_with ?pre ''apple'' ?post) < 2 ^ 64"
    by (simp add: signature_with_def)
  show ?thesis
    using toEnumName_contract [OF i c n1 n2 l] i g by simp
qed

text \<open>
  Claim C7, as stated, fails for the length 0: \<^verbatim>\<open>FixedString<0>\<close> would hold an array of
  no elements and is ill-formed, whatever the source.
\<close>

theorem FixedString_copy_counterexample:
  "0 \<le> length (ptr_chars (c_str ''name'')) \<and>
   FixedString 0 (c_str ''name'') = Inl zero_size_array"
  by (simp add: FixedString_def)

text \<open>
  Claim C7, amended. For every length \<open>L\<close> of at least 1, constructing a \<^verbatim>\<open>FixedString\<close> of
  capacity \<open>L\<close> from a pointer to at least \<open>L\<close> characters copies exactly the first \<open>L\<close> of
  them; its view has the size \<open>L\<close> and denotes exactly these characters. The views of two
  buffers compare equal if and only if the buffers have the same contents.
\<close>

theorem FixedString_copy:
  assumes "0 < L" and "L \<le> length (ptr_chars src)"
  shows "\<exists>fs. FixedString L src = Inr fs \<and> fs_data fs = take L (ptr_chars src) \<and>
    length (fs_data fs) = L \<and>
    sv_size (to_string_view ob fs) = L \<and> sv_chars (to_string_view ob fs) = take L (ptr_chars src) \<and>
    (\<forall>ob' fs'. sv_eq (to_string_view ob fs) (to_string_view ob' fs') \<longleftrightarrow> fs_data fs = fs_data fs')"
proof -
  let ?fs = "\<lparr>fs_data = take L (ptr_chars src)\<rparr>"
  have c: "FixedString L src = Inr ?fs"
    using assms by (simp add: FixedString_def)
  have l: "length (fs_data ?fs) = L"
    using assms(2) by simp
  have v: "sv_size (to_string_view ob ?fs) = L"
      "sv_chars (to_string_view ob ?fs) = take L (ptr_chars src)"
    using assms(2) by (simp_all add: to_string_view_def sv_chars_def)
  have e: "sv_eq (to_string_view ob ?fs) (to_string_view ob' fs') \<longleftrightarrow> fs_data ?fs = fs_data fs'"
    for ob' fs'
    by (auto simp: sv_eq_def sv_chars_to_string_view) (simp add: to_string_view_def)
  show ?thesis
    using c l v e by (intro exI [of _ ?fs]) simp
qed

theorem FixedString_copy_witness:
  "(\<exists>p. substr (sv_literal ''retested'') 2 4 = Inr p \<and> 4 \<le> length (ptr_chars (sv_data p)) \<and>
     (\<exists>fs. FixedString 4 (sv_data p) = Inr fs \<and>
        sv_eq (sv_literal ''test'') (to_string_view temporary fs)))"
proof -
  let ?p = "\<lparr>sv_data = ptr_add (c_str ''retested'') 2, sv_size = 4\<rparr>"
  have p: "substr (sv_literal ''retested'') 2 4 = Inr ?p"
    by (simp add: substr_def sv_literal_def)
  have l: "4 \<le> length (ptr_chars (sv_data ?p))"
    by (simp add: ptr_add_def c_str_def)
  have z: "(0::nat) < 4"
    by simp
  from FixedString_copy [OF z l, of temporary]
  obtain fs where fs: "FixedString 4 (sv_data ?p) = Inr fs"
      "sv_size (to_string_view temporary fs) = 4"
      "sv_chars (to_string_view temporary fs) = take 4 (ptr_chars (sv_data ?p))"
    by blast
  have "take 4 (ptr_chars (sv_data ?p)) = ''test''"
    by (simp add: ptr_add_def c_str_def)
  then have e: "sv_eq (sv_literal ''test'') (to_string_view temporary fs)"
    using fs(2,3) by (simp add: sv_eq_def sv_chars_literal) (simp add: sv_literal_def)
  show ?thesis
    using p l fs(1) e by blast
qed

text \<open>
  Claim C9, as stated, fails: when the extracted range is empty, as after the final colon
  of \<^verbatim>\<open>abc:\<close>, the extraction needs the buffer \<^verbatim>\<open>FixedString<0>\<close>, which is ill-formed.
\<close>

theorem toEnumName_never_fails_counterexample:
  "NUL \<notin> set ''abc:'' \<and> toEnumName (c_str ''abc:'') = Inl zero_size_array"
proof -
  let ?s = "''abc:''"
  have n: "NUL \<notin> set ?s"
    by (simp add: NUL_def)
  have s: "toEnumName_start (sv_literal ?s) = 4"
    by (rule toEnumName_start_eq) simp_all
  have "take (size_t_sub (toEnumName_end (sv_literal ?s)) (toEnumName_start (sv_literal ?s)))
      (drop (toEnumName_start (sv_literal ?s)) ?s) = []"
    by (simp add: s)
  then have "toEnumName (c_str ?s) =
      (if ([]::string) = [] then Inl zero_size_array else Inr \<lparr>fs_data = []\<rparr>)"
    using toEnumName_c_str [OF n] by (simp only:)
  then have "toEnumName (c_str ?s) = Inl zero_size_array"
    by simp
  then show ?thesis
    using n by simp
qed

text \<open>
  Claim C9, amended. On every string, \<open>start\<close> is a position of the string and
  \<^verbatim>\<open>substr\<close> does not throw; the extraction yields a buffer exactly when the extracted range
  is not empty. Without a scope-separator character the not-found position plus one wraps to
  0 and the extraction starts at the beginning; without a generic-closing character from
  \<open>start\<close> on, the result extends to the end of the string.
\<close>

theorem toEnumName_never_fails:
  assumes "NUL \<notin> set s"
  shows "toEnumName_start (sv_literal s) \<le> length s \<and>
    (\<exists>nameView.
       substr (sv_literal s) (toEnumName_start (sv_literal s))
         (size_t_sub (toEnumName_end (sv_literal s)) (toEnumName_start (sv_literal s)))
         = Inr nameView \<and>
       toEnumName (c_str s) =
         (if sv_chars nameView = [] then Inl zero_size_array
          else Inr \<lparr>fs_data = sv_chars nameView\<rparr>)) \<and>
    (CHR '':'' \<notin> set s \<longrightarrow> toEnumName_start (sv_literal s) = 0) \<and>
    (length s < 2 ^ 64 \<longrightarrow> CHR ''>'' \<notin> set (drop (toEnumName_start (sv_literal s)) s) \<longrightarrow>
       toEnumName_end (sv_literal s) = npos \<and>
       toEnumName (c_str s) =
         (if drop (toEnumName_start (sv_literal s)) s = [] then Inl zero_size_array
          else Inr \<lparr>fs_data = drop (toEnumName_start (sv_literal s)) s\<rparr>))"
proof (intro conjI impI)
  let ?start = "toEnumName_start (sv_literal s)"
  let ?cnt = "size_t_sub (toEnumName_end (sv_literal s)) ?start"
  let ?view = "\<lparr>sv_data = ptr_add (c_str s) ?start, sv_size = min ?cnt (length s - ?start)\<rparr>"
  show le: "?start \<le> length s"
    using toEnumName_start_le [of "sv_literal s"] by (simp add: sv_literal_def)
  have sub: "substr (sv_literal s) ?start ?cnt = Inr ?view"
    using le by (simp add: substr_def) (simp add: sv_literal_def)
  have "take (min ?cnt (length s - ?start)) (drop ?start s) = take ?cnt (drop ?start s)"
    by (cases "?cnt \<le> length s - ?start") (simp_all add: min_def)
  then have chars: "sv_chars ?view = take ?cnt (drop ?start s)"
    using le by (simp add: sv_chars_def ptr_add_def c_str_def)
  have "toEnumName (c_str s) =
      (if sv_chars ?view = [] then Inl zero_size_array else Inr \<lparr>fs_data = sv_chars ?view\<rparr>)"
    using toEnumName_c_str [OF assms] by (simp only: chars)
  then show "\<exists>nameView. substr (sv_literal s) ?start ?cnt = Inr nameView \<and>
       toEnumName (c_str s) =
         (if sv_chars nameView = [] then Inl zero_size_array
          else Inr \<lparr>fs_data = sv_chars nameView\<rparr>)"
    using sub by blast
  show "?start = 0" if "CHR '':'' \<notin> set s"
    using that
    by (simp add: toEnumName_start_def find_last_of_def sv_chars_literal
        last_index_None [THEN iffD2] size_t_wrap)
  assume len: "length s < 2 ^ 64" and none: "CHR ''>'' \<notin> set (drop ?start s)"
  show e: "toEnumName_end (sv_literal s) = npos"
    using none by (simp add: toEnumName_end_npos sv_chars_literal)
  have "?start \<le> npos"
    using le len by (simp add: le_npos)
  then have "size_t_sub npos ?start = npos - ?start"
    using npos_less by (rule size_t_sub_small)
  moreover have "length (drop ?start s) \<le> npos - ?start"
    using len by (simp add: npos_def SIZE_MAX_def)
  ultimately have "take ?cnt (drop ?start s) = drop ?start s"
    by (simp add: e)
  then show "toEnumName (c_str s) =
         (if drop ?start s = [] then Inl zero_size_array
          else Inr \<lparr>fs_data = drop ?start s\<rparr>)"
    using toEnumName_c_str [OF assms] by (simp only:)
qed

theorem toEnumName_never_fails_witness:
  "NUL \<notin> set ''abc'' \<and> CHR '':'' \<notin> set ''abc'' \<and> toEnumName_start (sv_literal ''abc'') = 0 \<and>
   toEnumName_end (sv_literal ''abc'') = npos \<and>
   toEnumName (c_str ''abc'') = Inr \<lparr>fs_data = ''abc''\<rparr>"
proof -
  have a: "NUL \<notin> set ''abc''"
    by (simp add: NUL_def)
  have b: "CHR '':'' \<notin> set ''abc''"
    by simp
  have l: "length ''abc'' < (2::nat) ^ 64"
    by simp
  from toEnumName_never_fails [OF a] b
  have s: "toEnumName_start (sv_literal ''abc'') = 0"
    by blast
  have c: "CHR ''>'' \<notin> set (drop (toEnumName_start (sv_literal ''abc'')) ''abc'')"
    by (simp add: s)
  from toEnumName_never_fails [OF a] l c
  have "toEnumName_end (sv_literal ''abc'') = npos"
    "toEnumName (c_str ''abc'') =
       (if drop (toEnumName_start (sv_literal ''abc'')) ''abc'' = [] then Inl zero_size_array
        else Inr \<lparr>fs_data = drop (toEnumName_start (sv_literal ''abc'')) ''abc''\<rparr>)"
    by blast+
  then show ?thesis
    using a b s by simp
qed

text \<open>
  Claim C8, as stated, fails: the demo does not print the header line followed at once by
  the fifteen entry lines.
\<close>

theorem main_output_counterexample:
  "main \<noteq> Inr (spec_demo_output, 0)"
  by (simp add: main_eq spec_demo_output_def println_def newline_def)

text \<open>
  Claim C8, amended. For the fruit enumeration \<^verbatim>\<open>makeEnumString\<close> returns a table of 15
  elements, element 0 being \<^verbatim>\<open>apple\<close> and element 14 \<^verbatim>\<open>strawberry\<close>. The demo prints the
  header line \<^verbatim>\<open>List of fruits:\<close>, then an empty line, then exactly 15 lines, each a
  right-aligned index of width 2, a colon and a space, and the name, in ascending order of
  the index; it exits with status 0.
\<close>

theorem main_output:
  "(\<exists>fruitNames. makeEnumString Fruit = Inr fruitNames \<and> length fruitNames = 15 \<and>
      sv_chars (fruitNames ! 0) = ''apple'' \<and> sv_chars (fruitNames ! 14) = ''strawberry'') \<and>
   main =
    Inr (concat (map println
       [''List of fruits:'', [], '' 0: apple'', '' 1: banana'', '' 2: cherry'', '' 3: grape'',
        '' 4: grapefruit'', '' 5: kiwi'', '' 6: lemon'', '' 7: lime'', '' 8: melon'',
        '' 9: orange'', ''10: pear'', ''11: pineapple'', ''12: plum'', ''13: raspberry'',
        ''14: strawberry'']), 0)"
proof (intro conjI)
  let ?tbl = "map (\<lambda>i. to_string_view (enumName_var (qual_name Fruit) i)
                    \<lparr>fs_data = enumerators Fruit ! i\<rparr>) [0..<15]"
  have l: "length ?tbl = 15"
    by simp
  have a: "sv_chars (?tbl ! 0) = ''apple''"
    by (simp add: sv_chars_to_string_view Fruit_simps del: upt_Suc)
  have s: "sv_chars (?tbl ! 14) = ''strawberry''"
    by (simp add: sv_chars_to_string_view Fruit_simps del: upt_Suc)
  show "\<exists>fruitNames. makeEnumString Fruit = Inr fruitNames \<and> length fruitNames = 15 \<and>
      sv_chars (fruitNames ! 0) = ''apple'' \<and> sv_chars (fruitNames ! 14) = ''strawberry''"
    by (rule exI [of _ ?tbl]) (intro conjI makeEnumString_Fruit l a s)
  show "main =
    Inr (concat (map println
       [''List of fruits:'', [], '' 0: apple'', '' 1: banana'', '' 2: cherry'', '' 3: grape'',
        '' 4: grapefruit'', '' 5: kiwi'', '' 6: lemon'', '' 7: lime'', '' 8: melon'',
        '' 9: orange'', ''10: pear'', ''11: pineapple'', ''12: plum'', ''13: raspberry'',
        ''14: strawberry'']), 0)"
    by (rule main_eq)
qed

end
